theory Spec2Isabelle
  imports Main "HOL-Library.Word"
begin

section \<open>The \<open>states\<close> table\<close>

text \<open>
  The store of tf-locker is one PostgreSQL table, created by \<open>tableCreationQuery\<close>:
  \<^verbatim>\<open>
  CREATE TABLE IF NOT EXISTS states (
    state_id UUID NOT NULL, name VARCHAR(64) NOT NULL,
    version BIGINT NOT NULL DEFAULT 0, lock_info TEXT, blob TEXT NOT NULL,
    PRIMARY KEY (state_id, name, version))
  \<close>
  A row is a record with these five columns. \<open>version\<close> is read into a Go \<open>int\<close> and
  incremented there, so it is a 64-bit word read as two's complement (\<open>sint\<close>);
  \<open>lock_info\<close> is the only nullable column. The table is the list of its rows, and the
  primary key is a predicate on that list which \<open>upsertInsert\<close> enforces.

  What is outside the model: the connection to the database. \<open>Begin\<close>, \<open>Prepare\<close>,
  \<open>Commit\<close> succeed and no deadline expires; one operation runs at a time. State ids and
  names are taken as the strings the caller passes, in one spelling and within the
  width of their columns, as \<open>validateIDs\<close> of the HTTP layer checks.
\<close>

type_synonym bytes = "8 word list"

record row =
  state_id :: string
  name :: string
  version :: "64 word"
  lock_info :: "string option"
  blob :: bytes

type_synonym table = "row list"

text \<open>The primary key \<open>(state_id, name, version)\<close>.\<close>

definition pk :: "row \<Rightarrow> string \<times> string \<times> 64 word" where
  "pk r = (state_id r, name r, version r)"

definition primary_key :: "table \<Rightarrow> bool" where
  "primary_key db = distinct (map pk db)"

text \<open>\<open>database/sql\<close>'s \<open>NullString\<close> and what \<open>Scan\<close> stores into it.\<close>

record NullString =
  String :: string
  Valid :: bool

definition Scan :: "string option \<Rightarrow> NullString" where
  "Scan c = (case c of None \<Rightarrow> \<lparr>String = [], Valid = False\<rparr>
                     | Some s \<Rightarrow> \<lparr>String = s, Valid = True\<rparr>)"

text \<open>
  \<open>LockInfo\<close> of \<open>backend/lock_info.go\<close>; \<open>Created\<close> is kept as the text of the time.
\<close>

record LockInfo =
  ID :: string
  Operation :: string
  Info :: string
  Who :: string
  Version :: string
  Created :: string
  Path :: string

text \<open>
  The errors the four operations return. \<open>LockIdsDontLineUp\<close> is the conflict of
  \<open>UpsertState\<close> (``Lock ids don't line up''), \<open>CantUnlock\<close> the refusal of
  \<open>UnlockState\<close> (``Can't unlock ... because somebody else holds the lock''), each
  with the stored and the supplied text of its message. \<open>UnmarshalError\<close> is an error
  of \<open>json.Unmarshal\<close>, \<open>UniqueViolation\<close> the driver's error for an insert that
  breaks the primary key, \<open>ErrNoRows\<close> is \<open>sql.ErrNoRows\<close>.
\<close>

datatype error =
    UnmarshalError
  | LockIdsDontLineUp string string
  | InsertDidntWork
  | InsertingDidntWork
  | ErrAlreadyLocked
  | CantUnlock string string
  | LockingDidntWork
  | UniqueViolation
  | ErrNoRows

subsection \<open>The four statements\<close>

text \<open>\<open>WHERE state_id = $1 AND name = $2\<close>\<close>

definition of_key :: "string \<Rightarrow> string \<Rightarrow> row \<Rightarrow> bool" where
  "of_key stateID nm r = (state_id r = stateID \<and> name r = nm)"

text \<open>
  \<open>ORDER BY version DESC LIMIT 1\<close> over a result that is not empty: the row of the
  greatest version, BIGINT being signed.
\<close>

fun greatest_version :: "row \<Rightarrow> row list \<Rightarrow> row" where
  "greatest_version r [] = r"
| "greatest_version r (x # xs) =
     greatest_version (if sint (version r) < sint (version x) then x else r) xs"

definition current_row :: "table \<Rightarrow> string \<Rightarrow> string \<Rightarrow> row option" where
  "current_row db stateID nm =
     (case filter (of_key stateID nm) db of
        [] \<Rightarrow> None
      | r # rs \<Rightarrow> Some (greatest_version r rs))"

text \<open>
  \<open>upsertSelectForUpdateStr\<close>: \<open>SELECT version, lock_info ... FOR UPDATE\<close>, scanned
  into \<open>version\<close> and \<open>queriedLockInfo\<close>; \<open>None\<close> is \<open>sql.ErrNoRows\<close>.
\<close>

definition upsertSelectForUpdate ::
  "table \<Rightarrow> string \<Rightarrow> string \<Rightarrow> (64 word \<times> NullString) option" where
  "upsertSelectForUpdate db stateID nm =
     map_option (\<lambda>r. (version r, Scan (lock_info r))) (current_row db stateID nm)"

text \<open>\<open>getSelectStr\<close>: \<open>SELECT version, blob ...\<close>\<close>

definition getSelect :: "table \<Rightarrow> string \<Rightarrow> string \<Rightarrow> (64 word \<times> bytes) option" where
  "getSelect db stateID nm =
     map_option (\<lambda>r. (version r, blob r)) (current_row db stateID nm)"

text \<open>
  \<open>upsertInsertStr\<close>: \<open>INSERT INTO states(...) VALUES($1, $2, $3, $4, $5)\<close>. The
  result is the driver's error when the key is taken, and otherwise the new table with
  the number of rows affected.
\<close>

definition upsertInsert ::
  "table \<Rightarrow> string \<Rightarrow> string \<Rightarrow> 64 word \<Rightarrow> string option \<Rightarrow> bytes \<Rightarrow> error + table \<times> nat" where
  "upsertInsert db stateID nm v li data =
     (if (stateID, nm, v) \<in> set (map pk db) then Inl UniqueViolation
      else Inr (db @ [\<lparr>state_id = stateID, name = nm, version = v,
                       lock_info = li, blob = data\<rparr>], 1))"

text \<open>
  \<open>lockUpdateStr\<close>: \<open>UPDATE states SET lock_info = $1 WHERE state_id = $2 AND
  name = $3 AND version = $4\<close>, with the number of rows affected.
\<close>

definition lockUpdate ::
  "table \<Rightarrow> string option \<Rightarrow> string \<Rightarrow> string \<Rightarrow> 64 word \<Rightarrow> table \<times> nat" where
  "lockUpdate db li stateID nm v =
     (map (\<lambda>r. if of_key stateID nm r \<and> version r = v then r\<lparr>lock_info := li\<rparr> else r) db,
      length (filter (\<lambda>r. of_key stateID nm r \<and> version r = v) db))"

section \<open>The operations of \<open>postgresStore\<close>\<close>

text \<open>
  Each operation takes the table and returns its result with the table it leaves
  behind: the table it was given when the transaction is rolled back (every
  \<open>return err\<close> before \<open>Commit\<close>, through \<open>defer txn.Rollback()\<close>), the changed table
  when it commits.

  \<open>json.Unmarshal\<close> is Go's library, not code of this repository: \<open>UpsertState\<close>
  takes it as the parameter \<open>Unmarshal\<close>, which gives the \<open>LockInfo\<close> it fills, or
  \<open>None\<close> when it returns an error.
\<close>

definition UpsertState ::
  "(string \<Rightarrow> LockInfo option) \<Rightarrow> table \<Rightarrow> string \<Rightarrow> string \<Rightarrow> string \<Rightarrow> bytes
     \<Rightarrow> (error + unit) \<times> table" where
  "UpsertState Unmarshal db stateID nm lockInfo data =
     (case
        (case upsertSelectForUpdate db stateID nm of
           None \<Rightarrow> Inr (0, \<lparr>String = [], Valid = False\<rparr>)
         | Some (v, queriedLockInfo) \<Rightarrow>
             if \<not> Valid queriedLockInfo then Inr (v, queriedLockInfo)
             else if String queriedLockInfo \<noteq> [] then
               (case Unmarshal (String queriedLockInfo) of
                  None \<Rightarrow> Inl UnmarshalError
                | Some li \<Rightarrow>
                    if ID li \<noteq> lockInfo
                    then Inl (LockIdsDontLineUp (String queriedLockInfo) lockInfo)
                    else Inr (v, queriedLockInfo))
             else Inr (v, queriedLockInfo))
      of
        Inl err \<Rightarrow> (Inl err, db)
      | Inr (v, queriedLockInfo) \<Rightarrow>
          (case upsertInsert db stateID nm (v + 1)
                  (if lockInfo = [] then None else Some (String queriedLockInfo)) data of
             Inl err \<Rightarrow> (Inl err, db)
           | Inr (db', affected) \<Rightarrow>
               if affected \<noteq> 1 then (Inl InsertDidntWork, db) else (Inr (), db')))"

definition GetState :: "table \<Rightarrow> string \<Rightarrow> string \<Rightarrow> (error + bytes) \<times> table" where
  "GetState db stateID nm =
     (case getSelect db stateID nm of
        None \<Rightarrow> (Inr [], db)
      | Some (v, bites) \<Rightarrow> (Inr bites, db))"

definition DeleteState ::
  "(string \<Rightarrow> LockInfo option) \<Rightarrow> table \<Rightarrow> string \<Rightarrow> string \<Rightarrow> (error + unit) \<times> table" where
  "DeleteState Unmarshal db stateID nm = UpsertState Unmarshal db stateID nm [] []"

text \<open>
  \<open>LockState\<close> commits the insert of its first branch before it begins a second
  transaction, so an error after that point leaves the inserted row in the table.
\<close>

definition LockState :: "table \<Rightarrow> string \<Rightarrow> string \<Rightarrow> string \<Rightarrow> (error + unit) \<times> table" where
  "LockState db stateID nm lockInfo =
     (case
        (case upsertSelectForUpdate db stateID nm of
           None \<Rightarrow>
             (case upsertInsert db stateID nm 1 (Some lockInfo) [] of
                Inl err \<Rightarrow> Inl (err, db)
              | Inr (db', affected) \<Rightarrow>
                  if affected \<noteq> 1 then Inl (InsertingDidntWork, db)
                  else (case upsertSelectForUpdate db' stateID nm of
                          None \<Rightarrow> Inl (ErrNoRows, db')
                        | Some (v, queriedLockInfo) \<Rightarrow> Inr (db', v, queriedLockInfo)))
         | Some (v, queriedLockInfo) \<Rightarrow> Inr (db, v, queriedLockInfo))
      of
        Inl (err, db') \<Rightarrow> (Inl err, db')
      | Inr (db', v, queriedLockInfo) \<Rightarrow>
          if Valid queriedLockInfo \<and> String queriedLockInfo = lockInfo then (Inr (), db')
          else if String queriedLockInfo \<noteq> [] then (Inl ErrAlreadyLocked, db')
          else (case lockUpdate db' (Some lockInfo) stateID nm v of
                  (db'', affected) \<Rightarrow>
                    if affected \<noteq> 1 then (Inl LockingDidntWork, db') else (Inr (), db'')))"

definition UnlockState :: "table \<Rightarrow> string \<Rightarrow> string \<Rightarrow> string \<Rightarrow> (error + unit) \<times> table" where
  "UnlockState db stateID nm lockInfo =
     (case
        (case upsertSelectForUpdate db stateID nm of
           None \<Rightarrow> (0, \<lparr>String = [], Valid = False\<rparr>)
         | Some (v, queriedLockInfo) \<Rightarrow> (v, queriedLockInfo))
      of (v, queriedLockInfo) \<Rightarrow>
        if \<not> Valid queriedLockInfo \<or> String queriedLockInfo \<noteq> lockInfo
        then (Inl (CantUnlock (String queriedLockInfo) lockInfo), db)
        else (case lockUpdate db None stateID nm v of
                (db', affected) \<Rightarrow>
                  if affected \<noteq> 1 then (Inl LockingDidntWork, db) else (Inr (), db')))"


section \<open>Notions the statements below use\<close>

text \<open>
  The version of a key: that of its current row, and \<open>0\<close> when the key has no row
  (\<open>version = 0\<close> on \<open>sql.ErrNoRows\<close> in \<open>UpsertState\<close> and \<open>UnlockState\<close>).
\<close>

definition current_version :: "table \<Rightarrow> string \<Rightarrow> string \<Rightarrow> 64 word" where
  "current_version db stateID nm =
     (case current_row db stateID nm of None \<Rightarrow> 0 | Some r \<Rightarrow> version r)"

text \<open>
  An instance of \<open>Unmarshal\<close> for the examples. \<open>ID_object i\<close> is the JSON text of an
  object with the one member \<open>ID\<close>, a string \<open>i\<close> of printable ASCII characters
  without quotation mark or backslash. On such a text \<open>json.Unmarshal\<close> fills \<open>ID\<close>
  with \<open>i\<close> and leaves the other fields at their zero values. The instance gives
  \<open>None\<close> on every other text; the examples apply it to \<open>ID_object\<close> texts and to
  texts that are not JSON at all, where \<open>json.Unmarshal\<close> returns a syntax error.
  The theorems hold for every \<open>Unmarshal\<close>.
\<close>

definition quoted :: "string \<Rightarrow> string" where
  "quoted s = CHR 0x22 # s @ [CHR 0x22]"

definition ID_object :: "string \<Rightarrow> string" where
  "ID_object i = ''{'' @ quoted ''ID'' @ '':'' @ quoted i @ ''}''"

definition plain :: "char \<Rightarrow> bool" where
  "plain c = (c \<noteq> CHR 0x22 \<and> c \<noteq> CHR 0x5C \<and> 32 \<le> (of_char c :: nat) \<and> (of_char c :: nat) < 127)"

definition Unmarshal_ID_object :: "string \<Rightarrow> LockInfo option" where
  "Unmarshal_ID_object s =
     (let i = take (length s - 9) (drop 7 s)
      in if s = ID_object i \<and> list_all plain i
         then Some \<lparr>ID = i, Operation = [], Info = [], Who = [], Version = [],
                    Created = [], Path = []\<rparr>
         else None)"

text \<open>The key of the examples.\<close>

definition example_id :: string where
  "example_id = ''a3bb189e-8bf9-3888-9912-ace4e6543002''"


definition example_row :: "64 word \<Rightarrow> string option \<Rightarrow> bytes \<Rightarrow> row" where
  "example_row v li b =
     \<lparr>state_id = example_id, name = ''env'', version = v, lock_info = li, blob = b\<rparr>"

text \<open>
  A history of the store: the calls of the methods of \<open>postgresStore\<close> that reach the
  table, each with its arguments, applied one after the other from the empty table
  that \<open>ensureTableExists\<close> creates. \<open>after\<close> is the table a call leaves behind.
  \<open>versions_within n\<close> bounds the versions of a table by \<open>n\<close>.
\<close>


datatype call =
    Upsert string string string bytes
  | Get string string
  | Delete string string
  | Lock string string string
  | Unlock string string string

fun after :: "(string \<Rightarrow> LockInfo option) \<Rightarrow> table \<Rightarrow> call \<Rightarrow> table" where
  "after U db (Upsert stateID nm lockInfo data) = snd (UpsertState U db stateID nm lockInfo data)"
| "after U db (Get stateID nm) = snd (GetState db stateID nm)"
| "after U db (Delete stateID nm) = snd (DeleteState U db stateID nm)"
| "after U db (Lock stateID nm lockInfo) = snd (LockState db stateID nm lockInfo)"
| "after U db (Unlock stateID nm lockInfo) = snd (UnlockState db stateID nm lockInfo)"

definition versions_within :: "int \<Rightarrow> table \<Rightarrow> bool" where
  "versions_within n db = (\<forall>r \<in> set db. 0 < sint (version r) \<and> sint (version r) \<le> n)"


section \<open>The current row\<close>


lemma greatest_version_mem: "greatest_version r rs \<in> set (r # rs)"
proof (induction rs arbitrary: r)
  case Nil
  show ?case by simp
next
  case (Cons x xs)
  have "greatest_version (if sint (version r) < sint (version x) then x else r) xs
          \<in> set ((if sint (version r) < sint (version x) then x else r) # xs)"
    by (rule Cons.IH)
  then show ?case by (auto split: if_splits)
qed

lemma greatest_version_start: "sint (version r) \<le> sint (version (greatest_version r rs))"
proof (induction rs arbitrary: r)
  case Nil
  show ?case by simp
next
  case (Cons x xs)
  show ?case
  proof (cases "sint (version r) < sint (version x)")
    case True
    with Cons.IH [of x] show ?thesis by simp
  next
    case False
    with Cons.IH [of r] show ?thesis by simp
  qed
qed

lemma greatest_version_ge:
  "y \<in> set (r # rs) \<Longrightarrow> sint (version y) \<le> sint (version (greatest_version r rs))"
proof (induction rs arbitrary: r)
  case Nil
  then show ?case by simp
next
  case (Cons x xs)
  let ?m = "if sint (version r) < sint (version x) then x else r"
  have start: "sint (version ?m) \<le> sint (version (greatest_version ?m xs))"
    by (rule greatest_version_start)
  from Cons.prems consider "y = r" | "y = x" | "y \<in> set xs" by auto
  then show ?case
  proof cases
    case 1
    with start show ?thesis by (simp split: if_splits)
  next
    case 2
    with start show ?thesis by (simp split: if_splits)
  next
    case 3
    then have "y \<in> set (?m # xs)" by simp
    from Cons.IH [OF this] show ?thesis by simp
  qed
qed

lemma current_row_None: "(current_row db stateID nm = None) = (\<forall>r \<in> set db. \<not> of_key stateID nm r)"
proof (cases "filter (of_key stateID nm) db")
  case Nil
  then show ?thesis by (simp add: current_row_def filter_empty_conv)
next
  case (Cons a as)
  then have "a \<in> set (filter (of_key stateID nm) db)" by simp
  then have "a \<in> set db \<and> of_key stateID nm a" by simp
  with Cons show ?thesis by (auto simp: current_row_def)
qed

lemma current_row_Some:
  assumes "current_row db stateID nm = Some r"
  shows "r \<in> set db" and "of_key stateID nm r"
    and "\<And>x. x \<in> set db \<Longrightarrow> of_key stateID nm x \<Longrightarrow> sint (version x) \<le> sint (version r)"
proof -
  from assms obtain a as where f: "filter (of_key stateID nm) db = a # as"
    and r: "r = greatest_version a as"
    by (auto simp: current_row_def split: list.splits)
  have "r \<in> set (a # as)" unfolding r by (rule greatest_version_mem)
  then have m: "r \<in> set (filter (of_key stateID nm) db)" by (simp only: f)
  from m show "r \<in> set db" by simp
  from m show "of_key stateID nm r" by simp
  fix x assume "x \<in> set db" "of_key stateID nm x"
  then have "x \<in> set (filter (of_key stateID nm) db)" by simp
  then have "x \<in> set (a # as)" by (simp only: f)
  then show "sint (version x) \<le> sint (version r)" unfolding r by (rule greatest_version_ge)
qed

lemma sint_ge_64: "- (2 ^ 63) \<le> sint (v :: 64 word)"
  using sint_ge [of v] by simp

lemma sint_add_1_64: "sint ((v :: 64 word) + 1) = signed_take_bit 63 (sint v + 1)"
  using sint_word_ariths(1) [of v 1] by simp

lemma sint_succ: "sint (v :: 64 word) < 2 ^ 63 - 1 \<Longrightarrow> sint (v + 1) = sint v + 1"
  unfolding sint_add_1_64
  by (rule signed_take_bit_int_eq_self) (use sint_ge_64 [of v] in simp_all)


lemma key_taken:
  "((stateID, nm, v) \<in> set (map pk db)) = (\<exists>x \<in> set db. of_key stateID nm x \<and> version x = v)"
  by (auto simp: pk_def of_key_def)

lemma next_version_free:
  assumes cur: "current_row db stateID nm = Some r"
    and below: "sint (version r) < 2 ^ 63 - 1"
  shows "(stateID, nm, version r + 1) \<notin> set (map pk db)"
proof
  assume "(stateID, nm, version r + 1) \<in> set (map pk db)"
  then obtain x where x: "x \<in> set db" "of_key stateID nm x" "version x = version r + 1"
    unfolding key_taken by blast
  from current_row_Some(3) [OF cur x(1) x(2)] have "sint (version r + 1) \<le> sint (version r)"
    by (simp only: x(3))
  with sint_succ [OF below] show False by simp
qed

lemma no_row_free:
  "current_row db stateID nm = None \<Longrightarrow> (stateID, nm, v) \<notin> set (map pk db)"
  unfolding key_taken current_row_None by blast

lemma greatest_version_snoc:
  "greatest_version r (xs @ [y]) =
     (if sint (version (greatest_version r xs)) < sint (version y) then y
      else greatest_version r xs)"
  by (induction xs arbitrary: r) simp_all

lemma current_row_snoc_newer:
  assumes y: "of_key stateID nm y"
    and newer: "\<And>x. x \<in> set db \<Longrightarrow> of_key stateID nm x \<Longrightarrow> sint (version x) < sint (version y)"
  shows "current_row (db @ [y]) stateID nm = Some y"
proof (cases "current_row db stateID nm")
  case None
  then have "filter (of_key stateID nm) db = []"
    by (simp add: current_row_None filter_empty_conv)
  with y show ?thesis by (simp add: current_row_def)
next
  case (Some r)
  then obtain a as where f: "filter (of_key stateID nm) db = a # as"
    and r: "r = greatest_version a as"
    by (auto simp: current_row_def split: list.splits)
  from current_row_Some(1,2) [OF Some] have "sint (version r) < sint (version y)"
    by (rule newer)
  with y f r show ?thesis by (simp add: current_row_def greatest_version_snoc)
qed

lemma UpsertState_Inr:
  assumes "UpsertState U db stateID nm lockInfo data = (Inr (), db')"
  shows "db' = db @ [\<lparr>state_id = stateID, name = nm,
                       version = current_version db stateID nm + 1,
                       lock_info = (if lockInfo = [] then None
                                    else Some (case current_row db stateID nm of
                                                 None \<Rightarrow> []
                                               | Some r \<Rightarrow> String (Scan (lock_info r)))),
                       blob = data\<rparr>]"
  using assms
  by (auto simp: UpsertState_def upsertSelectForUpdate_def upsertInsert_def current_version_def
           split: option.splits if_splits sum.splits)

lemma LockState_no_row:
  assumes none: "current_row db stateID nm = None"
  shows "LockState db stateID nm lockInfo =
           (Inr (), db @ [\<lparr>state_id = stateID, name = nm, version = 1,
                            lock_info = Some lockInfo, blob = []\<rparr>])"
proof -
  let ?r = "\<lparr>state_id = stateID, name = nm, version = 1, lock_info = Some lockInfo, blob = []\<rparr>"
  have free: "(stateID, nm, 1) \<notin> set (map pk db)"
    using none by (rule no_row_free)
  have "current_row (db @ [?r]) stateID nm = Some ?r"
  proof (rule current_row_snoc_newer)
    show "of_key stateID nm ?r" by (simp add: of_key_def)
  next
    fix x assume "x \<in> set db" "of_key stateID nm x"
    with none show "sint (version x) < sint (version ?r)"
      by (simp add: current_row_None)
  qed
  with none free show ?thesis
    by (simp add: LockState_def upsertSelectForUpdate_def upsertInsert_def Scan_def)
qed


lemma LockState_same:
  "current_row db stateID nm = Some r \<Longrightarrow> lock_info r = Some t \<Longrightarrow>
   LockState db stateID nm t = (Inr (), db)"
  by (simp add: LockState_def upsertSelectForUpdate_def Scan_def)

lemma LockState_other:
  "current_row db stateID nm = Some r \<Longrightarrow> lock_info r = Some t1 \<Longrightarrow> t1 \<noteq> [] \<Longrightarrow> t2 \<noteq> t1 \<Longrightarrow>
   LockState db stateID nm t2 = (Inl ErrAlreadyLocked, db)"
  by (simp add: LockState_def upsertSelectForUpdate_def Scan_def)

lemma GetState_eq:
  "GetState db stateID nm =
     (Inr (case current_row db stateID nm of None \<Rightarrow> [] | Some r \<Rightarrow> blob r), db)"
  by (simp add: GetState_def getSelect_def split: option.splits)

lemma of_key_pk: "(of_key stateID nm x \<and> version x = v) = (pk x = (stateID, nm, v))"
  by (auto simp: of_key_def pk_def)

lemma filter_pk_single:
  "distinct (map pk db) \<Longrightarrow> r \<in> set db \<Longrightarrow> filter (\<lambda>x. pk x = pk r) db = [r]"
proof (induction db)
  case Nil
  then show ?case by simp
next
  case (Cons a db)
  show ?case
  proof (cases "a = r")
    case True
    with Cons.prems have "pk r \<notin> pk ` set db" by simp
    then have "\<forall>x \<in> set db. pk x \<noteq> pk r" by (metis imageI)
    then have "filter (\<lambda>x. pk x = pk r) db = []" by (simp add: filter_empty_conv)
    with True show ?thesis by simp
  next
    case False
    with Cons.prems have "r \<in> set db" by simp
    with Cons.prems have "pk a \<notin> pk ` set db" by simp
    with \<open>r \<in> set db\<close> have "pk a \<noteq> pk r" by (metis imageI)
    with Cons.IH Cons.prems \<open>r \<in> set db\<close> show ?thesis by simp
  qed
qed

lemma pk_eq_row:
  "distinct (map pk db) \<Longrightarrow> r \<in> set db \<Longrightarrow> x \<in> set db \<Longrightarrow> (pk x = pk r) = (x = r)"
  by (auto simp: distinct_map dest: inj_onD)

lemma lockUpdate_current:
  assumes key: "primary_key db" and cur: "current_row db stateID nm = Some r"
  shows "lockUpdate db li stateID nm (version r) =
           (map (\<lambda>x. if x = r then r\<lparr>lock_info := li\<rparr> else x) db, 1)"
proof -
  from cur have r: "r \<in> set db" "of_key stateID nm r" by (rule current_row_Some)+
  then have pkr: "pk r = (stateID, nm, version r)" by (simp add: of_key_def pk_def)
  from key have d: "distinct (map pk db)" by (simp add: primary_key_def)
  have "filter (\<lambda>x. of_key stateID nm x \<and> version x = version r) db = [r]"
    unfolding of_key_pk pkr [symmetric] using d r(1) by (rule filter_pk_single)
  moreover have "map (\<lambda>x. if of_key stateID nm x \<and> version x = version r
                           then x\<lparr>lock_info := li\<rparr> else x) db
               = map (\<lambda>x. if x = r then r\<lparr>lock_info := li\<rparr> else x) db"
  proof (rule map_cong [OF refl])
    fix x assume "x \<in> set db"
    with d r(1) have "(pk x = pk r) = (x = r)" by (rule pk_eq_row)
    then show "(if of_key stateID nm x \<and> version x = version r then x\<lparr>lock_info := li\<rparr> else x)
             = (if x = r then r\<lparr>lock_info := li\<rparr> else x)"
      unfolding of_key_pk pkr [symmetric] by auto
  qed
  ultimately show ?thesis by (simp add: lockUpdate_def)
qed

lemma greatest_version_map:
  assumes "\<And>x. version (f x) = version x"
  shows "greatest_version (f r) (map f rs) = f (greatest_version r rs)"
  by (induction rs arbitrary: r) (simp_all add: assms)

lemma current_row_map:
  assumes v: "\<And>x. version (f x) = version x"
    and k: "\<And>x. of_key stateID nm (f x) = of_key stateID nm x"
  shows "current_row (map f db) stateID nm = map_option f (current_row db stateID nm)"
proof -
  have "filter (of_key stateID nm) (map f db) = map f (filter (of_key stateID nm) db)"
    by (simp add: filter_map o_def k)
  then show ?thesis
    by (simp add: current_row_def greatest_version_map [of f, OF v] split: list.splits)
qed

lemma current_row_set_lock:
  "current_row (map (\<lambda>x. if x = r then r\<lparr>lock_info := li\<rparr> else x) db) stateID nm
     = map_option (\<lambda>x. if x = r then r\<lparr>lock_info := li\<rparr> else x) (current_row db stateID nm)"
  by (rule current_row_map) (simp_all add: of_key_def)

lemma UnlockState_refused:
  "current_row db stateID nm = None \<or> (\<exists>r. current_row db stateID nm = Some r \<and> lock_info r \<noteq> Some t)
   \<Longrightarrow> \<exists>s. UnlockState db stateID nm t = (Inl (CantUnlock s t), db)"
  by (auto simp: UnlockState_def upsertSelectForUpdate_def Scan_def split: option.splits)

lemma UnlockState_held:
  assumes key: "primary_key db" and cur: "current_row db stateID nm = Some r"
    and tok: "lock_info r = Some t"
  shows "UnlockState db stateID nm t =
           (Inr (), map (\<lambda>x. if x = r then r\<lparr>lock_info := None\<rparr> else x) db)"
  using cur tok lockUpdate_current [OF key cur, of None]
  by (simp add: UnlockState_def upsertSelectForUpdate_def Scan_def)


lemma next_version_newer:
  assumes cur: "current_row db stateID nm = Some r"
    and below: "sint (version r) < 2 ^ 63 - 1"
    and x: "x \<in> set db" "of_key stateID nm x"
  shows "sint (version x) < sint (version r + 1)"
  using current_row_Some(3) [OF cur x] sint_succ [OF below] by simp

lemma current_row_after_insert:
  assumes cur: "current_row db stateID nm = Some r"
    and below: "sint (version r) < 2 ^ 63 - 1"
  shows "current_row (db @ [\<lparr>state_id = stateID, name = nm, version = version r + 1,
                              lock_info = li, blob = data\<rparr>]) stateID nm
         = Some \<lparr>state_id = stateID, name = nm, version = version r + 1,
                  lock_info = li, blob = data\<rparr>"
proof (rule current_row_snoc_newer)
  show "of_key stateID nm \<lparr>state_id = stateID, name = nm, version = version r + 1,
                            lock_info = li, blob = data\<rparr>"
    by (simp add: of_key_def)
next
  fix x assume "x \<in> set db" "of_key stateID nm x"
  with cur below have "sint (version x) < sint (version r + 1)" by (rule next_version_newer)
  then show "sint (version x) < sint (version \<lparr>state_id = stateID, name = nm,
                 version = version r + 1, lock_info = li, blob = data\<rparr>)"
    by simp
qed

lemma UpsertState_no_lock:
  assumes cur: "current_row db stateID nm = Some r"
    and tok: "lock_info r = None \<or> lock_info r = Some []"
    and below: "sint (version r) < 2 ^ 63 - 1"
  shows "UpsertState U db stateID nm t data =
           (Inr (), db @ [\<lparr>state_id = stateID, name = nm, version = version r + 1,
                            lock_info = (if t = [] then None else Some []), blob = data\<rparr>])"
  using cur tok next_version_free [OF cur below]
  by (auto simp: UpsertState_def upsertSelectForUpdate_def Scan_def upsertInsert_def)

lemma UpsertState_no_row:
  assumes none: "current_row db stateID nm = None"
  shows "UpsertState U db stateID nm t data =
           (Inr (), db @ [\<lparr>state_id = stateID, name = nm, version = 1,
                            lock_info = (if t = [] then None else Some []), blob = data\<rparr>])"
  using none no_row_free [OF none, of 1]
  by (simp add: UpsertState_def upsertSelectForUpdate_def upsertInsert_def)

lemma UpsertState_lock_id:
  assumes cur: "current_row db stateID nm = Some r"
    and tok: "lock_info r = Some s" "s \<noteq> []"
    and dec: "U s = Some li" "ID li = t"
    and below: "sint (version r) < 2 ^ 63 - 1"
  shows "UpsertState U db stateID nm t data =
           (Inr (), db @ [\<lparr>state_id = stateID, name = nm, version = version r + 1,
                            lock_info = (if t = [] then None else Some s), blob = data\<rparr>])"
  using cur tok dec next_version_free [OF cur below]
  by (simp add: UpsertState_def upsertSelectForUpdate_def Scan_def upsertInsert_def)

subsection \<open>The primary key is kept\<close>

text \<open>
  The empty table satisfies the primary key and every operation keeps it, so every
  table the operations build from the empty one satisfies it.
\<close>

lemma primary_key_Nil: "primary_key []"
  by (simp add: primary_key_def)

lemma primary_key_upsertInsert:
  "primary_key db \<Longrightarrow> upsertInsert db stateID nm v li data = Inr (db', n) \<Longrightarrow> primary_key db'"
  by (auto simp: upsertInsert_def primary_key_def pk_def split: if_splits)

lemma primary_key_lockUpdate:
  assumes "primary_key db"
  shows "primary_key (fst (lockUpdate db li stateID nm v))"
proof -
  have "pk (if of_key stateID nm x \<and> version x = v then x\<lparr>lock_info := li\<rparr> else x) = pk x"
    for x by (simp add: pk_def)
  then have "map pk (fst (lockUpdate db li stateID nm v)) = map pk db"
    by (simp add: lockUpdate_def o_def)
  with assms show ?thesis by (simp add: primary_key_def)
qed

lemma primary_key_UpsertState:
  assumes "primary_key db"
  shows "primary_key (snd (UpsertState U db stateID nm t data))"
proof -
  have "snd (UpsertState U db stateID nm t data) = db
      \<or> (\<exists>r. snd (UpsertState U db stateID nm t data) = db @ [r] \<and> pk r \<notin> set (map pk db))"
    by (auto simp: UpsertState_def upsertInsert_def pk_def
             split: option.splits if_splits sum.splits prod.splits)
  with assms show ?thesis by (auto simp: primary_key_def)
qed

lemma primary_key_GetState: "primary_key db \<Longrightarrow> primary_key (snd (GetState db stateID nm))"
  by (simp add: GetState_eq)

lemma primary_key_UnlockState:
  assumes "primary_key db"
  shows "primary_key (snd (UnlockState db stateID nm t))"
proof -
  obtain v q where sel:
    "(case upsertSelectForUpdate db stateID nm of
        None \<Rightarrow> (0, \<lparr>String = [], Valid = False\<rparr>)
      | Some (v, queriedLockInfo) \<Rightarrow> (v, queriedLockInfo)) = (v, q)"
    by (cases "case upsertSelectForUpdate db stateID nm of
                 None \<Rightarrow> (0, \<lparr>String = [], Valid = False\<rparr>)
               | Some (v, queriedLockInfo) \<Rightarrow> (v, queriedLockInfo)") blast
  have "snd (UnlockState db stateID nm t) = db
      \<or> snd (UnlockState db stateID nm t) = fst (lockUpdate db None stateID nm v)"
    by (simp add: UnlockState_def sel split: prod.splits)
  with assms primary_key_lockUpdate [OF assms] show ?thesis by auto
qed

lemma primary_key_LockState:
  assumes "primary_key db"
  shows "primary_key (snd (LockState db stateID nm t))"
proof (cases "current_row db stateID nm")
  case None
  then have "snd (LockState db stateID nm t) =
               db @ [\<lparr>state_id = stateID, name = nm, version = 1, lock_info = Some t, blob = []\<rparr>]"
    by (simp add: LockState_no_row)
  moreover have "(stateID, nm, 1) \<notin> set (map pk db)" using None by (rule no_row_free)
  ultimately show ?thesis using assms by (auto simp: primary_key_def pk_def)
next
  case (Some r)
  then have "snd (LockState db stateID nm t) = db
      \<or> snd (LockState db stateID nm t) = fst (lockUpdate db (Some t) stateID nm (version r))"
    by (auto simp: LockState_def upsertSelectForUpdate_def split: prod.splits)
  with assms primary_key_lockUpdate [OF assms] show ?thesis by auto
qed


subsection \<open>Tables built by calls\<close>

text \<open>
  Every table that a history of calls builds from the empty table satisfies the
  primary key, and after \<open>n\<close> calls its versions lie between 1 and \<open>n\<close>: below
  \<open>2 ^ 63 - 1\<close> calls no version reaches the largest \<open>int\<close>.
\<close>

lemma primary_key_after: "primary_key db \<Longrightarrow> primary_key (after U db c)"
  by (cases c)
     (simp_all add: primary_key_UpsertState primary_key_GetState primary_key_LockState
        primary_key_UnlockState DeleteState_def)

lemma primary_key_history: "primary_key (foldl (after U) [] cs)"
proof (induction cs rule: rev_induct)
  case Nil
  show ?case by (simp add: primary_key_Nil)
next
  case (snoc c cs)
  then show ?case by (simp add: primary_key_after)
qed

lemma current_version_within:
  assumes "versions_within n db" and "0 \<le> n"
  shows "0 \<le> sint (current_version db stateID nm) \<and> sint (current_version db stateID nm) \<le> n"
proof (cases "current_row db stateID nm")
  case None
  with assms(2) show ?thesis by (simp add: current_version_def)
next
  case (Some r)
  then have "r \<in> set db" by (rule current_row_Some(1))
  with assms(1) Some show ?thesis by (auto simp: current_version_def versions_within_def)
qed

lemma rows_UpsertState:
  "snd (UpsertState U db stateID nm t data) = db
   \<or> (\<exists>r. snd (UpsertState U db stateID nm t data) = db @ [r]
          \<and> version r = current_version db stateID nm + 1)"
proof (cases "fst (UpsertState U db stateID nm t data)")
  case (Inl e)
  then have "snd (UpsertState U db stateID nm t data) = db"
    by (auto simp: UpsertState_def split: option.splits if_splits sum.splits prod.splits)
  then show ?thesis by simp
next
  case (Inr u)
  then have "UpsertState U db stateID nm t data = (Inr (), snd (UpsertState U db stateID nm t data))"
    by (cases "UpsertState U db stateID nm t data") simp
  from UpsertState_Inr [OF this] show ?thesis by simp
qed

lemma versions_lockUpdate:
  "map version (fst (lockUpdate db li stateID nm v)) = map version db"
proof -
  have "version (if of_key stateID nm x \<and> version x = v then x\<lparr>lock_info := li\<rparr> else x)
          = version x" for x by simp
  then show ?thesis by (simp add: lockUpdate_def o_def)
qed

lemma versions_within_map:
  "map version db' = map version db \<Longrightarrow> versions_within n db \<Longrightarrow> versions_within n db'"
proof -
  assume m: "map version db' = map version db" and w: "versions_within n db"
  have "version ` set db' = version ` set db" using m by (metis list.set_map)
  show ?thesis unfolding versions_within_def
  proof
    fix r assume "r \<in> set db'"
    then have "version r \<in> version ` set db" using \<open>version ` set db' = version ` set db\<close> by blast
    then obtain x where "x \<in> set db" "version x = version r" by auto
    with w show "0 < sint (version r) \<and> sint (version r) \<le> n"
      by (auto simp: versions_within_def)
  qed
qed

lemma versions_within_mono: "versions_within n db \<Longrightarrow> n \<le> m \<Longrightarrow> versions_within m db"
  by (auto simp: versions_within_def)

lemma versions_within_after:
  assumes w: "versions_within n db" and n: "0 \<le> n" "n < 2 ^ 63 - 1"
  shows "versions_within (n + 1) (after U db c)"
proof -
  have w': "versions_within (n + 1) db" using w by (rule versions_within_mono) simp
  have upsert: "versions_within (n + 1) (snd (UpsertState U db stateID nm t data))"
    for stateID nm t data
  proof -
    from current_version_within [OF w n(1), of stateID nm] n(2)
    have b: "0 \<le> sint (current_version db stateID nm)" "sint (current_version db stateID nm) \<le> n"
      "sint (current_version db stateID nm) < 2 ^ 63 - 1" by auto
    from sint_succ [OF b(3)] b(1,2)
    have "0 < sint (current_version db stateID nm + 1)
        \<and> sint (current_version db stateID nm + 1) \<le> n + 1" by simp
    with rows_UpsertState [of U db stateID nm t data] w' show ?thesis
      by (auto simp: versions_within_def)
  qed
  have lock: "versions_within (n + 1) (snd (LockState db stateID nm t))" for stateID nm t
  proof (cases "current_row db stateID nm")
    case None
    with w' n(1) show ?thesis by (simp add: LockState_no_row versions_within_def)
  next
    case (Some r)
    then have "snd (LockState db stateID nm t) = db
      \<or> snd (LockState db stateID nm t) = fst (lockUpdate db (Some t) stateID nm (version r))"
      by (auto simp: LockState_def upsertSelectForUpdate_def split: prod.splits)
    then show ?thesis
    proof
      assume "snd (LockState db stateID nm t) = db"
      with w' show ?thesis by simp
    next
      assume "snd (LockState db stateID nm t)
                = fst (lockUpdate db (Some t) stateID nm (version r))"
      with versions_within_map [OF versions_lockUpdate w'] show ?thesis by simp
    qed
  qed
  have unlock: "versions_within (n + 1) (snd (UnlockState db stateID nm t))" for stateID nm t
  proof -
    obtain v q where sel:
      "(case upsertSelectForUpdate db stateID nm of
          None \<Rightarrow> (0, \<lparr>String = [], Valid = False\<rparr>)
        | Some (v, queriedLockInfo) \<Rightarrow> (v, queriedLockInfo)) = (v, q)"
      by (cases "case upsertSelectForUpdate db stateID nm of
                   None \<Rightarrow> (0, \<lparr>String = [], Valid = False\<rparr>)
                 | Some (v, queriedLockInfo) \<Rightarrow> (v, queriedLockInfo)") blast
    have "snd (UnlockState db stateID nm t) = db
        \<or> snd (UnlockState db stateID nm t) = fst (lockUpdate db None stateID nm v)"
      by (simp add: UnlockState_def sel split: prod.splits)
    then show ?thesis
    proof
      assume "snd (UnlockState db stateID nm t) = db"
      with w' show ?thesis by simp
    next
      assume "snd (UnlockState db stateID nm t) = fst (lockUpdate db None stateID nm v)"
      with versions_within_map [OF versions_lockUpdate w'] show ?thesis by simp
    qed
  qed
  show ?thesis
    by (cases c) (simp_all add: upsert lock unlock DeleteState_def GetState_eq w')
qed

lemma versions_within_history:
  "int (length cs) < 2 ^ 63 \<Longrightarrow> versions_within (int (length cs)) (foldl (after U) [] cs)"
proof (induction cs rule: rev_induct)
  case Nil
  show ?case by (simp add: versions_within_def)
next
  case (snoc c cs)
  then have "versions_within (int (length cs)) (foldl (after U) [] cs)" by simp
  moreover have "0 \<le> int (length cs)" "int (length cs) < 2 ^ 63 - 1" using snoc.prems by simp_all
  ultimately have "versions_within (int (length cs) + 1) (after U (foldl (after U) [] cs) c)"
    by (rule versions_within_after)
  then show ?case by (simp add: add.commute)
qed



section \<open>The claims\<close>

lemmas run_defs =
  UpsertState_def LockState_def UnlockState_def GetState_def DeleteState_def
  upsertSelectForUpdate_def getSelect_def upsertInsert_def lockUpdate_def
  current_row_def current_version_def of_key_def Scan_def pk_def primary_key_def
  example_row_def

lemmas decode_defs = Unmarshal_ID_object_def ID_object_def quoted_def plain_def

subsection \<open>C1: a Write with another token on a locked key\<close>

text \<open>
  C1 as it is stated fails. It says that a Write whose token is not the token held on
  the current row fails with the conflict and inserts nothing. \<open>UpsertState\<close> does
  not compare the two texts: it decodes the stored text as JSON and compares the
  caller's text with the \<open>ID\<close> of the result (``lockInfo is only the lock ID''). On
  a row that holds the object with \<open>ID\<close> \<open>abc\<close>, a Write with the token \<open>abc\<close>, a
  different text, succeeds and inserts version 2.
\<close>

theorem UpsertState_other_token_counterexample:
  "current_row [example_row 1 (Some (ID_object ''abc'')) [1]] example_id ''env''
     = Some (example_row 1 (Some (ID_object ''abc'')) [1])
   \<and> ''abc'' \<noteq> ID_object ''abc''
   \<and> UpsertState Unmarshal_ID_object [example_row 1 (Some (ID_object ''abc'')) [1]]
        example_id ''env'' ''abc'' [2]
     = (Inr (), [example_row 1 (Some (ID_object ''abc'')) [1],
                 example_row 2 (Some (ID_object ''abc'')) [2]])"
  by (simp add: run_defs decode_defs)

text \<open>
  C1, amended: for every key whose current row holds a lock text \<open>s\<close> that is not
  empty, a Write fails and leaves the table as it was, with the conflict
  \<open>LockIdsDontLineUp\<close> when \<open>s\<close> decodes to a \<open>LockInfo\<close> whose \<open>ID\<close> is not the
  caller's token, and with the decoder's error when \<open>s\<close> does not decode.
\<close>

theorem UpsertState_wrong_lock_id:
  assumes "current_row db stateID nm = Some r" and "lock_info r = Some s" and "s \<noteq> []"
  shows "(U s = None \<longrightarrow> UpsertState U db stateID nm t data = (Inl UnmarshalError, db))
       \<and> (\<forall>li. U s = Some li \<and> ID li \<noteq> t \<longrightarrow>
             UpsertState U db stateID nm t data = (Inl (LockIdsDontLineUp s t), db))"
  using assms
  by (simp add: UpsertState_def upsertSelectForUpdate_def Scan_def)

theorem UpsertState_wrong_lock_id_witness:
  "current_row [example_row 1 (Some (ID_object ''abc'')) [1]] example_id ''env''
     = Some (example_row 1 (Some (ID_object ''abc'')) [1])
   \<and> lock_info (example_row 1 (Some (ID_object ''abc'')) [1]) = Some (ID_object ''abc'')
   \<and> ID_object ''abc'' \<noteq> []
   \<and> (\<exists>li. Unmarshal_ID_object (ID_object ''abc'') = Some li \<and> ID li \<noteq> ''xyz'')
   \<and> UpsertState Unmarshal_ID_object [example_row 1 (Some (ID_object ''abc'')) [1]]
        example_id ''env'' ''xyz'' [2]
     = (Inl (LockIdsDontLineUp (ID_object ''abc'') ''xyz''),
        [example_row 1 (Some (ID_object ''abc'')) [1]])
   \<and> current_row [example_row 1 (Some ''tok1'') []] example_id ''env''
     = Some (example_row 1 (Some ''tok1'') [])
   \<and> Unmarshal_ID_object ''tok1'' = None
   \<and> UpsertState Unmarshal_ID_object [example_row 1 (Some ''tok1'') []]
        example_id ''env'' ''tok1'' [2]
     = (Inl UnmarshalError, [example_row 1 (Some ''tok1'') []])"
proof -
  let ?r = "example_row 1 (Some (ID_object ''abc'')) [1]"
  let ?q = "example_row 1 (Some ''tok1'') []"
  have cur: "current_row [?r] example_id ''env'' = Some ?r" by (simp add: run_defs)
  have tok: "lock_info ?r = Some (ID_object ''abc'')" by (simp add: run_defs)
  have ne: "ID_object ''abc'' \<noteq> []" by (simp add: decode_defs)
  have dec: "\<exists>li. Unmarshal_ID_object (ID_object ''abc'') = Some li \<and> ID li \<noteq> ''xyz''"
    by (simp add: decode_defs)
  from UpsertState_wrong_lock_id [OF cur tok ne, of Unmarshal_ID_object "''xyz''" "[2]"] dec
  have conflict: "UpsertState Unmarshal_ID_object [?r] example_id ''env'' ''xyz'' [2]
          = (Inl (LockIdsDontLineUp (ID_object ''abc'') ''xyz''), [?r])"
    by blast
  have cur': "current_row [?q] example_id ''env'' = Some ?q" by (simp add: run_defs)
  have tok': "lock_info ?q = Some ''tok1''" by (simp add: run_defs)
  have ne': "''tok1'' \<noteq> []" by simp
  have dec': "Unmarshal_ID_object ''tok1'' = None" by (simp add: decode_defs)
  from UpsertState_wrong_lock_id [OF cur' tok' ne', of Unmarshal_ID_object "''tok1''" "[2]"] dec'
  have "UpsertState Unmarshal_ID_object [?q] example_id ''env'' ''tok1'' [2]
          = (Inl UnmarshalError, [?q])"
    by blast
  with conflict cur tok ne dec cur' dec' show ?thesis by blast
qed

subsection \<open>C2: how the operations compare tokens\<close>

text \<open>
  C2 as it is stated fails. It says that each operation authorizes by equality of the
  stored and the supplied text and parses neither. \<open>UpsertState\<close> parses the stored
  text: a Write that supplies the very text the row holds, the object with \<open>ID\<close>
  \<open>abc\<close>, is refused with the conflict, because the \<open>ID\<close> inside is \<open>abc\<close> and not
  the whole text.
\<close>

theorem UpsertState_equal_tokens_counterexample:
  "current_row [example_row 1 (Some (ID_object ''abc'')) [1]] example_id ''env''
     = Some (example_row 1 (Some (ID_object ''abc'')) [1])
   \<and> UpsertState Unmarshal_ID_object [example_row 1 (Some (ID_object ''abc'')) [1]]
        example_id ''env'' (ID_object ''abc'') [2]
     = (Inl (LockIdsDontLineUp (ID_object ''abc'') (ID_object ''abc'')),
        [example_row 1 (Some (ID_object ''abc'')) [1]])"
  by (simp add: run_defs decode_defs)

text \<open>
  C2, amended: on a key whose current row holds a lock text \<open>s\<close> that is not empty,
  \<open>LockState\<close> answers \<open>ErrAlreadyLocked\<close> exactly when the caller's text differs
  from \<open>s\<close>, and \<open>UnlockState\<close> refuses with \<open>CantUnlock\<close> exactly when it differs
  from \<open>s\<close>: both compare the two texts as they are. \<open>UpsertState\<close> answers the
  conflict exactly when \<open>s\<close> decodes as JSON to a \<open>LockInfo\<close> whose \<open>ID\<close> differs from
  the caller's text. \<open>GetState\<close> takes no token.
\<close>

theorem token_comparison:
  assumes "current_row db stateID nm = Some r" and "lock_info r = Some s" and "s \<noteq> []"
  shows "((fst (LockState db stateID nm t) = Inl ErrAlreadyLocked) = (s \<noteq> t))
       \<and> ((fst (UnlockState db stateID nm t) = Inl (CantUnlock s t)) = (s \<noteq> t))
       \<and> ((fst (UpsertState U db stateID nm t data) = Inl (LockIdsDontLineUp s t))
            = (\<exists>li. U s = Some li \<and> ID li \<noteq> t))"
proof (intro conjI)
  show "(fst (LockState db stateID nm t) = Inl ErrAlreadyLocked) = (s \<noteq> t)"
    using assms by (simp add: LockState_def upsertSelectForUpdate_def Scan_def)
  show "(fst (UnlockState db stateID nm t) = Inl (CantUnlock s t)) = (s \<noteq> t)"
    using assms
    by (simp add: UnlockState_def upsertSelectForUpdate_def Scan_def lockUpdate_def)
  show "(fst (UpsertState U db stateID nm t data) = Inl (LockIdsDontLineUp s t))
            = (\<exists>li. U s = Some li \<and> ID li \<noteq> t)"
    using assms
    by (auto simp: UpsertState_def upsertSelectForUpdate_def Scan_def upsertInsert_def
             split: option.splits)
qed

theorem token_comparison_witness:
  "current_row [example_row 1 (Some (ID_object ''k1'')) []] example_id ''env''
     = Some (example_row 1 (Some (ID_object ''k1'')) [])
   \<and> lock_info (example_row 1 (Some (ID_object ''k1'')) []) = Some (ID_object ''k1'')
   \<and> ID_object ''k1'' \<noteq> []
   \<and> fst (LockState [example_row 1 (Some (ID_object ''k1'')) []] example_id ''env'' ''k1'')
       = Inl ErrAlreadyLocked
   \<and> fst (UnlockState [example_row 1 (Some (ID_object ''k1'')) []] example_id ''env'' ''k1'')
       = Inl (CantUnlock (ID_object ''k1'') ''k1'')
   \<and> fst (UpsertState Unmarshal_ID_object [example_row 1 (Some (ID_object ''k1'')) []]
            example_id ''env'' ''k1'' [7])
       \<noteq> Inl (LockIdsDontLineUp (ID_object ''k1'') ''k1'')"
proof -
  let ?r = "example_row 1 (Some (ID_object ''k1'')) []"
  have cur: "current_row [?r] example_id ''env'' = Some ?r" by (simp add: run_defs)
  have tok: "lock_info ?r = Some (ID_object ''k1'')" by (simp add: run_defs)
  have ne: "ID_object ''k1'' \<noteq> []" by (simp add: decode_defs)
  have diff: "ID_object ''k1'' \<noteq> ''k1''" by (simp add: decode_defs)
  have dec: "\<not> (\<exists>li. Unmarshal_ID_object (ID_object ''k1'') = Some li \<and> ID li \<noteq> ''k1'')"
    by (simp add: decode_defs)
  from token_comparison [OF cur tok ne, of "''k1''" Unmarshal_ID_object "[7]"] diff dec
  have "fst (LockState [?r] example_id ''env'' ''k1'') = Inl ErrAlreadyLocked
      \<and> fst (UnlockState [?r] example_id ''env'' ''k1'') = Inl (CantUnlock (ID_object ''k1'') ''k1'')
      \<and> fst (UpsertState Unmarshal_ID_object [?r] example_id ''env'' ''k1'' [7])
          \<noteq> Inl (LockIdsDontLineUp (ID_object ''k1'') ''k1'')"
    by simp
  with cur tok ne show ?thesis by blast
qed

subsection \<open>C3: versions go up by one\<close>

text \<open>
  C3: the version of a key is 0 while it has no row; every successful Write
  (\<open>UpsertState\<close>) appends one row for the key whose version is the current version
  plus one, and \<open>LockState\<close> on a key without a row succeeds and appends one row for
  the key whose version is the current version, 0, plus one. The sum is Go's on
  \<open>int\<close>; below the largest \<open>int\<close> it is the sum of the integers.
\<close>

theorem version_increases_by_one:
  "(UpsertState U db stateID nm t data = (Inr (), db') \<longrightarrow>
      (\<exists>r. db' = db @ [r] \<and> of_key stateID nm r
          \<and> version r = current_version db stateID nm + 1
          \<and> (sint (current_version db stateID nm) < 2 ^ 63 - 1 \<longrightarrow>
               sint (version r) = sint (current_version db stateID nm) + 1)))
   \<and> (current_row db stateID nm = None \<longrightarrow>
        current_version db stateID nm = 0
        \<and> (\<exists>r. LockState db stateID nm t = (Inr (), db @ [r]) \<and> of_key stateID nm r
              \<and> version r = current_version db stateID nm + 1 \<and> sint (version r) = 1))"
proof (intro conjI impI)
  assume "UpsertState U db stateID nm t data = (Inr (), db')"
  then have "db' = db @ [\<lparr>state_id = stateID, name = nm,
                          version = current_version db stateID nm + 1,
                          lock_info = (if t = [] then None
                                       else Some (case current_row db stateID nm of
                                                    None \<Rightarrow> []
                                                  | Some r \<Rightarrow> String (Scan (lock_info r)))),
                          blob = data\<rparr>]"
    by (rule UpsertState_Inr)
  then show "\<exists>r. db' = db @ [r] \<and> of_key stateID nm r
          \<and> version r = current_version db stateID nm + 1
          \<and> (sint (current_version db stateID nm) < 2 ^ 63 - 1 \<longrightarrow>
               sint (version r) = sint (current_version db stateID nm) + 1)"
    by (simp add: of_key_def sint_succ)
next
  assume none: "current_row db stateID nm = None"
  then show "current_version db stateID nm = 0" by (simp add: current_version_def)
  from none show "\<exists>r. LockState db stateID nm t = (Inr (), db @ [r]) \<and> of_key stateID nm r
              \<and> version r = current_version db stateID nm + 1 \<and> sint (version r) = 1"
    by (simp add: LockState_no_row of_key_def current_version_def)
qed

theorem version_increases_by_one_witness:
  "UpsertState Unmarshal_ID_object [example_row 1 None [1]] example_id ''env'' [] [2]
     = (Inr (), [example_row 1 None [1], example_row 2 None [2]])
   \<and> current_version [example_row 1 None [1]] example_id ''env'' = 1
   \<and> sint (current_version [example_row 1 None [1]] example_id ''env'') < 2 ^ 63 - 1
   \<and> sint (version (example_row 2 None [2])) = 2
   \<and> current_row [] example_id ''env'' = None
   \<and> LockState [] example_id ''env'' ''tok1'' = (Inr (), [example_row 1 (Some ''tok1'') []])"
  using version_increases_by_one [where U = Unmarshal_ID_object
      and db = "[example_row 1 None [1]]" and stateID = example_id and nm = "''env''"
      and t = "[]" and data = "[2]"
      and db' = "[example_row 1 None [1], example_row 2 None [2]]"]
    version_increases_by_one [where db = "[]" and stateID = example_id and nm = "''env''"
      and t = "''tok1''"]
  by (simp add: run_defs)

subsection \<open>C4: the row a Write inserts\<close>

text \<open>
  C4 as it is stated fails. It says that the new row carries the token the caller
  supplied, and that the existing token is carried forward when the key was locked.
  \<open>UpsertState\<close> never stores the caller's text: when that text is not empty it
  stores the text it read from the current row, and when it is empty it stores NULL.
  On a key whose current row has no lock, a Write with the token \<open>tok9\<close> succeeds and
  the new row holds the empty string, which is neither \<open>tok9\<close> nor NULL. On a key
  locked with the object whose \<open>ID\<close> is empty, a Write with the empty token succeeds
  and the new row holds NULL: the lock is not carried forward.
\<close>

theorem UpsertState_supplied_token_counterexample:
  "current_row [example_row 1 None [1]] example_id ''env'' = Some (example_row 1 None [1])
   \<and> UpsertState Unmarshal_ID_object [example_row 1 None [1]] example_id ''env'' ''tok9'' [2]
     = (Inr (), [example_row 1 None [1], example_row 2 (Some []) [2]])
   \<and> lock_info (example_row 2 (Some []) [2]) \<noteq> Some ''tok9''
   \<and> lock_info (example_row 2 (Some []) [2]) \<noteq> None
   \<and> current_row [example_row 1 (Some (ID_object [])) [1]] example_id ''env''
     = Some (example_row 1 (Some (ID_object [])) [1])
   \<and> ID_object [] \<noteq> []
   \<and> UpsertState Unmarshal_ID_object [example_row 1 (Some (ID_object [])) [1]]
        example_id ''env'' [] [2]
     = (Inr (), [example_row 1 (Some (ID_object [])) [1], example_row 2 None [2]])"
  by (simp add: run_defs decode_defs)

text \<open>
  C4, amended: every successful Write (\<open>UpsertState\<close>) appends exactly one row, for
  the key, at the current version plus one, with the caller's blob. Its lock text is
  NULL when the caller's token is empty. When the caller's token is not empty it is the
  text read from the current row: the existing lock text when the key was locked, which
  is then a text whose decoded \<open>ID\<close> is the caller's token, and the empty string when
  the key had no row or no lock text.
\<close>

theorem UpsertState_new_row:
  assumes "UpsertState U db stateID nm t data = (Inr (), db')"
  shows "\<exists>new. db' = db @ [new]
       \<and> state_id new = stateID \<and> name new = nm
       \<and> version new = current_version db stateID nm + 1
       \<and> blob new = data
       \<and> (t = [] \<longrightarrow> lock_info new = None)
       \<and> (t \<noteq> [] \<longrightarrow>
            (\<forall>r s. current_row db stateID nm = Some r \<and> lock_info r = Some s \<and> s \<noteq> [] \<longrightarrow>
                 lock_info new = Some s \<and> (\<exists>li. U s = Some li \<and> ID li = t))
          \<and> (current_row db stateID nm = None
              \<or> (\<exists>r. current_row db stateID nm = Some r \<and> lock_info r \<in> {None, Some []})
              \<longrightarrow> lock_info new = Some []))"
proof -
  let ?new = "\<lparr>state_id = stateID, name = nm,
                version = current_version db stateID nm + 1,
                lock_info = (if t = [] then None
                             else Some (case current_row db stateID nm of
                                          None \<Rightarrow> []
                                        | Some r \<Rightarrow> String (Scan (lock_info r)))),
                blob = data\<rparr>"
  from assms have db': "db' = db @ [?new]" by (rule UpsertState_Inr)
  have dec: "\<exists>li. U s = Some li \<and> ID li = t"
    if "current_row db stateID nm = Some r" "lock_info r = Some s" "s \<noteq> []" for r s
    using assms that
    by (auto simp: UpsertState_def upsertSelectForUpdate_def Scan_def
             split: option.splits if_splits)
  show ?thesis
  proof (intro exI [of _ ?new] conjI impI allI)
    show "db' = db @ [?new]" by (rule db')
  next
    fix r s assume "current_row db stateID nm = Some r \<and> lock_info r = Some s \<and> s \<noteq> []"
    then show "\<exists>li. U s = Some li \<and> ID li = t" using dec by blast
  qed (auto simp: Scan_def)
qed

theorem UpsertState_new_row_witness:
  "UpsertState Unmarshal_ID_object [example_row 1 (Some (ID_object ''abc'')) [1]]
      example_id ''env'' ''abc'' [4, 5]
     = (Inr (), [example_row 1 (Some (ID_object ''abc'')) [1],
                 example_row 2 (Some (ID_object ''abc'')) [4, 5]])
   \<and> (\<exists>new. [example_row 1 (Some (ID_object ''abc'')) [1],
              example_row 2 (Some (ID_object ''abc'')) [4, 5]]
             = [example_row 1 (Some (ID_object ''abc'')) [1]] @ [new]
           \<and> version new = 2 \<and> blob new = [4, 5] \<and> lock_info new = Some (ID_object ''abc''))"
proof -
  let ?r = "example_row 1 (Some (ID_object ''abc'')) [1]"
  let ?n = "example_row 2 (Some (ID_object ''abc'')) [4, 5]"
  have run: "UpsertState Unmarshal_ID_object [?r] example_id ''env'' ''abc'' [4, 5]
               = (Inr (), [?r, ?n])"
    by (simp add: run_defs decode_defs)
  have cur: "current_row [?r] example_id ''env'' = Some ?r" by (simp add: run_defs)
  have ver: "current_version [?r] example_id ''env'' = 1" by (simp add: run_defs)
  have tok: "lock_info ?r = Some (ID_object ''abc'')" "ID_object ''abc'' \<noteq> []"
    by (simp_all add: run_defs decode_defs)
  from UpsertState_new_row [OF run] obtain new where new: "[?r, ?n] = [?r] @ [new]"
    "version new = current_version [?r] example_id ''env'' + 1" "blob new = [4, 5]"
    "''abc'' \<noteq> [] \<longrightarrow>
       (\<forall>r s. current_row [?r] example_id ''env'' = Some r \<and> lock_info r = Some s \<and> s \<noteq> [] \<longrightarrow>
            lock_info new = Some s \<and> (\<exists>li. Unmarshal_ID_object s = Some li \<and> ID li = ''abc''))"
    by blast
  from new(4) cur tok have "lock_info new = Some (ID_object ''abc'')" by simp
  with new(1,2,3) ver run show ?thesis by simp
qed

subsection \<open>C5: a second lock with another token\<close>

text \<open>
  C5 as it is stated fails for the empty token. \<open>LockState\<close> takes a stored text that
  is empty for no lock (\<open>queriedLockInfo.String != ""\<close>). A lock request with an empty
  body on a key without a row succeeds and stores the empty text; a second request
  with the token \<open>tok2\<close> then succeeds as well and replaces it.
\<close>

theorem LockState_empty_token_counterexample:
  "LockState [] example_id ''env'' [] = (Inr (), [example_row 1 (Some []) []])
   \<and> current_row [example_row 1 (Some []) []] example_id ''env''
       = Some (example_row 1 (Some []) [])
   \<and> ''tok2'' \<noteq> []
   \<and> LockState [example_row 1 (Some []) []] example_id ''env'' ''tok2''
       = (Inr (), [example_row 1 (Some ''tok2'') []])"
  by (simp add: run_defs)

text \<open>
  C5, amended: for every key whose current row holds a token \<open>t1\<close> that is not empty,
  \<open>LockState\<close> with another token \<open>t2\<close> fails with \<open>ErrAlreadyLocked\<close> and leaves
  the table as it was, so the current row still holds \<open>t1\<close>.
\<close>

theorem LockState_already_locked:
  assumes "current_row db stateID nm = Some r" and "lock_info r = Some t1"
    and "t1 \<noteq> []" and "t2 \<noteq> t1"
  shows "LockState db stateID nm t2 = (Inl ErrAlreadyLocked, db)
       \<and> map_option lock_info (current_row (snd (LockState db stateID nm t2)) stateID nm)
           = Some (Some t1)"
proof -
  from assms have "LockState db stateID nm t2 = (Inl ErrAlreadyLocked, db)"
    by (rule LockState_other)
  with assms(1,2) show ?thesis by simp
qed

theorem LockState_already_locked_witness:
  "current_row [example_row 1 (Some ''tok1'') [1]] example_id ''env''
     = Some (example_row 1 (Some ''tok1'') [1])
   \<and> lock_info (example_row 1 (Some ''tok1'') [1]) = Some ''tok1''
   \<and> ''tok1'' \<noteq> [] \<and> ''tok2'' \<noteq> ''tok1''
   \<and> LockState [example_row 1 (Some ''tok1'') [1]] example_id ''env'' ''tok2''
       = (Inl ErrAlreadyLocked, [example_row 1 (Some ''tok1'') [1]])"
proof -
  let ?r = "example_row 1 (Some ''tok1'') [1]"
  have cur: "current_row [?r] example_id ''env'' = Some ?r" by (simp add: run_defs)
  have tok: "lock_info ?r = Some ''tok1''" by (simp add: run_defs)
  have ne: "''tok1'' \<noteq> []" and diff: "''tok2'' \<noteq> ''tok1''" by simp_all
  from LockState_already_locked [OF cur tok ne diff] cur tok ne diff show ?thesis by blast
qed

subsection \<open>C6: locking again with the token held\<close>

text \<open>
  C6: for every key whose current row holds the token \<open>t\<close>, \<open>LockState\<close> with \<open>t\<close>
  succeeds and leaves the table as it was.
\<close>

theorem LockState_idempotent:
  assumes "current_row db stateID nm = Some r" and "lock_info r = Some t"
  shows "LockState db stateID nm t = (Inr (), db)"
  using assms by (rule LockState_same)

theorem LockState_idempotent_witness:
  "current_row [example_row 1 (Some ''tok1'') [1]] example_id ''env''
     = Some (example_row 1 (Some ''tok1'') [1])
   \<and> lock_info (example_row 1 (Some ''tok1'') [1]) = Some ''tok1''
   \<and> LockState [example_row 1 (Some ''tok1'') [1]] example_id ''env'' ''tok1''
       = (Inr (), [example_row 1 (Some ''tok1'') [1]])
   \<and> LockState (snd (LockState [] example_id ''env'' ''tok1'')) example_id ''env'' ''tok1''
       = LockState [] example_id ''env'' ''tok1''"
proof -
  let ?r = "example_row 1 (Some ''tok1'') [1]"
  let ?q = "example_row 1 (Some ''tok1'') []"
  have cur: "current_row [?r] example_id ''env'' = Some ?r" by (simp add: run_defs)
  have tok: "lock_info ?r = Some ''tok1''" by (simp add: run_defs)
  have first: "LockState [] example_id ''env'' ''tok1'' = (Inr (), [?q])"
    by (simp add: run_defs)
  have cur': "current_row [?q] example_id ''env'' = Some ?q" by (simp add: run_defs)
  have tok': "lock_info ?q = Some ''tok1''" by (simp add: run_defs)
  from LockState_idempotent [OF cur tok] LockState_idempotent [OF cur' tok'] first cur tok
  show ?thesis by simp
qed

subsection \<open>C7: releasing the lock\<close>

text \<open>
  C7: on a table that satisfies its primary key (as every table built by calls does,
  \<open>primary_key_history\<close>), \<open>UnlockState\<close> succeeds if and only if the current row
  of the key holds exactly the caller's token. When the key has no row, or its current
  row has no token, it fails with the refusal \<open>CantUnlock\<close>; every failure leaves the
  table as it was. On success the lock text of the current row is NULL and nothing
  else has changed: the current row keeps its version and blob, and every other row is
  as it was.
\<close>

theorem UnlockState_iff_token_held:
  assumes "primary_key db"
  shows "((fst (UnlockState db stateID nm t) = Inr ())
            = (\<exists>r. current_row db stateID nm = Some r \<and> lock_info r = Some t))
       \<and> (current_row db stateID nm = None
            \<or> (\<exists>r. current_row db stateID nm = Some r \<and> lock_info r = None)
          \<longrightarrow> UnlockState db stateID nm t = (Inl (CantUnlock [] t), db))
       \<and> (fst (UnlockState db stateID nm t) \<noteq> Inr () \<longrightarrow>
            (\<exists>s. UnlockState db stateID nm t = (Inl (CantUnlock s t), db)))
       \<and> (\<forall>r. current_row db stateID nm = Some r \<and> lock_info r = Some t \<longrightarrow>
            UnlockState db stateID nm t
              = (Inr (), map (\<lambda>x. if x = r then r\<lparr>lock_info := None\<rparr> else x) db)
            \<and> current_row (snd (UnlockState db stateID nm t)) stateID nm
              = Some (r\<lparr>lock_info := None\<rparr>)
            \<and> version (r\<lparr>lock_info := None\<rparr>) = version r
            \<and> blob (r\<lparr>lock_info := None\<rparr>) = blob r)"
proof -
  have held: "UnlockState db stateID nm t
                = (Inr (), map (\<lambda>x. if x = r then r\<lparr>lock_info := None\<rparr> else x) db)"
    if "current_row db stateID nm = Some r" "lock_info r = Some t" for r
    using assms that by (rule UnlockState_held)
  have refused: "\<exists>s. UnlockState db stateID nm t = (Inl (CantUnlock s t), db)"
    if "\<not> (\<exists>r. current_row db stateID nm = Some r \<and> lock_info r = Some t)"
  proof (rule UnlockState_refused)
    from that show "current_row db stateID nm = None
      \<or> (\<exists>r. current_row db stateID nm = Some r \<and> lock_info r \<noteq> Some t)"
      by (cases "current_row db stateID nm") auto
  qed
  have iff: "(fst (UnlockState db stateID nm t) = Inr ())
               = (\<exists>r. current_row db stateID nm = Some r \<and> lock_info r = Some t)"
  proof
    assume ok: "fst (UnlockState db stateID nm t) = Inr ()"
    show "\<exists>r. current_row db stateID nm = Some r \<and> lock_info r = Some t"
    proof (rule ccontr)
      assume "\<not> (\<exists>r. current_row db stateID nm = Some r \<and> lock_info r = Some t)"
      then obtain s where "UnlockState db stateID nm t = (Inl (CantUnlock s t), db)"
        using refused by blast
      with ok show False by simp
    qed
  next
    assume "\<exists>r. current_row db stateID nm = Some r \<and> lock_info r = Some t"
    then show "fst (UnlockState db stateID nm t) = Inr ()" using held by auto
  qed
  have none: "UnlockState db stateID nm t = (Inl (CantUnlock [] t), db)"
    if "current_row db stateID nm = None
          \<or> (\<exists>r. current_row db stateID nm = Some r \<and> lock_info r = None)"
    using that by (auto simp: UnlockState_def upsertSelectForUpdate_def Scan_def)
  have after: "current_row (snd (UnlockState db stateID nm t)) stateID nm
                 = Some (r\<lparr>lock_info := None\<rparr>)"
    if "current_row db stateID nm = Some r" "lock_info r = Some t" for r
    using that by (simp add: held current_row_set_lock)
  from iff none refused held after show ?thesis by auto
qed

theorem UnlockState_iff_token_held_witness:
  "primary_key [example_row 1 None [1], example_row 2 (Some ''tok1'') [2]]
   \<and> current_row [example_row 1 None [1], example_row 2 (Some ''tok1'') [2]] example_id ''env''
       = Some (example_row 2 (Some ''tok1'') [2])
   \<and> UnlockState [example_row 1 None [1], example_row 2 (Some ''tok1'') [2]]
        example_id ''env'' ''tok1''
       = (Inr (), [example_row 1 None [1], example_row 2 None [2]])
   \<and> UnlockState [example_row 1 None [1], example_row 2 (Some ''tok1'') [2]]
        example_id ''env'' ''tok2''
       = (Inl (CantUnlock ''tok1'' ''tok2''),
          [example_row 1 None [1], example_row 2 (Some ''tok1'') [2]])
   \<and> primary_key []
   \<and> UnlockState [] example_id ''env'' ''tok1'' = (Inl (CantUnlock [] ''tok1''), [])"
proof -
  let ?db = "[example_row 1 None [1], example_row 2 (Some ''tok1'') [2]]"
  have key: "primary_key ?db" by (simp add: run_defs)
  have cur: "current_row ?db example_id ''env'' = Some (example_row 2 (Some ''tok1'') [2])"
    by (simp add: run_defs)
  have tok: "lock_info (example_row 2 (Some ''tok1'') [2]) = Some ''tok1''"
    by (simp add: run_defs)
  have upd: "map (\<lambda>x. if x = example_row 2 (Some ''tok1'') [2]
                       then (example_row 2 (Some ''tok1'') [2])\<lparr>lock_info := None\<rparr> else x) ?db
               = [example_row 1 None [1], example_row 2 None [2]]"
    by (simp add: run_defs)
  have "UnlockState ?db example_id ''env'' ''tok1''
          = (Inr (), [example_row 1 None [1], example_row 2 None [2]])"
    using UnlockState_iff_token_held [OF key, of example_id "''env''" "''tok1''"] cur tok upd
    by simp
  moreover have "UnlockState ?db example_id ''env'' ''tok2''
                   = (Inl (CantUnlock ''tok1'' ''tok2''), ?db)"
    by (simp add: run_defs)
  moreover have key0: "primary_key []" by (rule primary_key_Nil)
  moreover have "UnlockState [] example_id ''env'' ''tok1'' = (Inl (CantUnlock [] ''tok1''), [])"
    using UnlockState_iff_token_held [OF key0, of example_id "''env''" "''tok1''"]
    by (simp add: current_row_def)
  ultimately show ?thesis using key cur by blast
qed

subsection \<open>C8: Delete is a Write of nothing\<close>

text \<open>
  C8: for every key, and every table, \<open>DeleteState\<close> gives the result and the table
  that \<open>UpsertState\<close> gives with the empty string for the token and the empty blob.
\<close>

theorem DeleteState_is_UpsertState:
  "DeleteState U db stateID nm = UpsertState U db stateID nm [] []
   \<and> fst (DeleteState U db stateID nm) = fst (UpsertState U db stateID nm [] [])
   \<and> snd (DeleteState U db stateID nm) = snd (UpsertState U db stateID nm [] [])"
  by (simp add: DeleteState_def)

theorem DeleteState_is_UpsertState_witness:
  "DeleteState Unmarshal_ID_object [example_row 1 None [1]] example_id ''env''
     = (Inr (), [example_row 1 None [1], example_row 2 None []])
   \<and> UpsertState Unmarshal_ID_object [example_row 1 None [1]] example_id ''env'' [] []
     = (Inr (), [example_row 1 None [1], example_row 2 None []])
   \<and> DeleteState Unmarshal_ID_object [example_row 1 (Some (ID_object ''abc'')) [1]]
        example_id ''env''
     = (Inl (LockIdsDontLineUp (ID_object ''abc'') []),
        [example_row 1 (Some (ID_object ''abc'')) [1]])"
proof -
  have "UpsertState Unmarshal_ID_object [example_row 1 None [1]] example_id ''env'' [] []
          = (Inr (), [example_row 1 None [1], example_row 2 None []])"
    by (simp add: run_defs)
  moreover have "UpsertState Unmarshal_ID_object [example_row 1 (Some (ID_object ''abc'')) [1]]
                   example_id ''env'' [] []
                 = (Inl (LockIdsDontLineUp (ID_object ''abc'') []),
                    [example_row 1 (Some (ID_object ''abc'')) [1]])"
    by (simp add: run_defs decode_defs)
  ultimately show ?thesis
    using DeleteState_is_UpsertState [of Unmarshal_ID_object "[example_row 1 None [1]]"
        example_id "''env''"]
      DeleteState_is_UpsertState [of Unmarshal_ID_object
        "[example_row 1 (Some (ID_object ''abc'')) [1]]" example_id "''env''"]
    by simp
qed

subsection \<open>C9: Read returns the newest blob\<close>

text \<open>
  C9: \<open>GetState\<close> leaves the table as it was. When the key has no row it returns the
  empty blob, as it does on the empty table, before any Write. When the key has rows
  it returns the blob of a row of the key whose version no row of the key exceeds.
\<close>

theorem GetState_latest_blob:
  "snd (GetState db stateID nm) = db
   \<and> ((\<forall>x \<in> set db. \<not> of_key stateID nm x) \<longrightarrow> fst (GetState db stateID nm) = Inr [])
   \<and> ((\<exists>x \<in> set db. of_key stateID nm x) \<longrightarrow>
        (\<exists>r \<in> set db. of_key stateID nm r
           \<and> (\<forall>x \<in> set db. of_key stateID nm x \<longrightarrow> sint (version x) \<le> sint (version r))
           \<and> fst (GetState db stateID nm) = Inr (blob r)))
   \<and> GetState [] stateID nm = (Inr [], [])"
proof (intro conjI impI)
  show "snd (GetState db stateID nm) = db" by (simp add: GetState_eq)
  show "GetState [] stateID nm = (Inr [], [])" by (simp add: GetState_eq current_row_def)
next
  assume "\<forall>x \<in> set db. \<not> of_key stateID nm x"
  then have "current_row db stateID nm = None" by (simp add: current_row_None)
  then show "fst (GetState db stateID nm) = Inr []" by (simp add: GetState_eq)
next
  assume "\<exists>x \<in> set db. of_key stateID nm x"
  then have "current_row db stateID nm \<noteq> None" by (simp add: current_row_None)
  then obtain r where r: "current_row db stateID nm = Some r" by blast
  show "\<exists>r \<in> set db. of_key stateID nm r
           \<and> (\<forall>x \<in> set db. of_key stateID nm x \<longrightarrow> sint (version x) \<le> sint (version r))
           \<and> fst (GetState db stateID nm) = Inr (blob r)"
  proof (intro bexI [of _ r] conjI ballI impI)
    show "r \<in> set db" using r by (rule current_row_Some(1))
    show "of_key stateID nm r" using r by (rule current_row_Some(2))
    show "fst (GetState db stateID nm) = Inr (blob r)" using r by (simp add: GetState_eq)
  next
    fix x assume "x \<in> set db" "of_key stateID nm x"
    with r show "sint (version x) \<le> sint (version r)" by (rule current_row_Some(3))
  qed
qed

theorem GetState_latest_blob_witness:
  "(\<exists>x \<in> set [example_row 2 None [20], example_row 3 None [30], example_row 1 None [10]].
       of_key example_id ''env'' x)
   \<and> GetState [example_row 2 None [20], example_row 3 None [30], example_row 1 None [10]]
        example_id ''env''
       = (Inr [30], [example_row 2 None [20], example_row 3 None [30], example_row 1 None [10]])
   \<and> filter (of_key example_id ''prod'')
        [example_row 2 None [20], example_row 3 None [30], example_row 1 None [10]] = []
   \<and> GetState [example_row 2 None [20], example_row 3 None [30], example_row 1 None [10]]
        example_id ''prod''
       = (Inr [], [example_row 2 None [20], example_row 3 None [30], example_row 1 None [10]])"
  using GetState_latest_blob [of "[example_row 2 None [20], example_row 3 None [30],
                                    example_row 1 None [10]]" example_id "''env''"]
    GetState_latest_blob [of "[example_row 2 None [20], example_row 3 None [30],
                                example_row 1 None [10]]" example_id "''prod''"]
  by (simp add: run_defs)

subsection \<open>C10: a Write with a token on a key that is not locked\<close>

text \<open>
  C10: for every key whose current row holds no lock token (NULL), a Write
  (\<open>UpsertState\<close>) with a token that is not empty succeeds and appends the row of the
  next version with the caller's blob; the lock text of that row is the text read from
  the current row, the empty string, not the caller's token. The new row is the
  current row afterwards, and the writer does not hold the lock: \<open>UnlockState\<close> with
  the writer's token is refused. The version of the current row is taken below the
  largest \<open>int\<close>, where \<open>version++\<close> does not wrap; it is, in every table built by
  fewer than \<open>2 ^ 63 - 1\<close> calls (\<open>versions_within_history\<close>).
\<close>

theorem UpsertState_token_on_unlocked_key:
  assumes "current_row db stateID nm = Some r" and "lock_info r = None" and "t \<noteq> []"
    and "sint (version r) < 2 ^ 63 - 1"
  shows "\<exists>new. UpsertState U db stateID nm t data = (Inr (), db @ [new])
       \<and> new = \<lparr>state_id = stateID, name = nm, version = version r + 1,
                  lock_info = Some [], blob = data\<rparr>
       \<and> lock_info new \<noteq> Some t
       \<and> current_row (db @ [new]) stateID nm = Some new
       \<and> UnlockState (db @ [new]) stateID nm t = (Inl (CantUnlock [] t), db @ [new])"
proof -
  let ?new = "\<lparr>state_id = stateID, name = nm, version = version r + 1,
                lock_info = Some [], blob = data\<rparr>"
  have tok: "lock_info r = None \<or> lock_info r = Some []" using assms(2) by simp
  have run: "UpsertState U db stateID nm t data = (Inr (), db @ [?new])"
    using UpsertState_no_lock [OF assms(1) tok assms(4), of U t data] assms(3) by simp
  have cur: "current_row (db @ [?new]) stateID nm = Some ?new"
    using assms(1,4) by (rule current_row_after_insert)
  have "UnlockState (db @ [?new]) stateID nm t = (Inl (CantUnlock [] t), db @ [?new])"
    using cur assms(3) by (simp add: UnlockState_def upsertSelectForUpdate_def Scan_def)
  with run cur assms(3) show ?thesis by auto
qed

theorem UpsertState_token_on_unlocked_key_witness:
  "current_row [example_row 5 None [1]] example_id ''env'' = Some (example_row 5 None [1])
   \<and> lock_info (example_row 5 None [1]) = None
   \<and> ''writer'' \<noteq> []
   \<and> sint (version (example_row 5 None [1])) < 2 ^ 63 - 1
   \<and> UpsertState Unmarshal_ID_object [example_row 5 None [1]] example_id ''env'' ''writer'' [8]
       = (Inr (), [example_row 5 None [1], example_row 6 (Some []) [8]])
   \<and> UnlockState [example_row 5 None [1], example_row 6 (Some []) [8]]
        example_id ''env'' ''writer''
       = (Inl (CantUnlock [] ''writer''),
          [example_row 5 None [1], example_row 6 (Some []) [8]])"
proof -
  let ?r = "example_row 5 None [1]"
  have cur: "current_row [?r] example_id ''env'' = Some ?r" by (simp add: run_defs)
  have tok: "lock_info ?r = None" by (simp add: run_defs)
  have ne: "''writer'' \<noteq> []" by simp
  have below: "sint (version ?r) < 2 ^ 63 - 1" by (simp add: run_defs)
  have new: "\<lparr>state_id = example_id, name = ''env'', version = version ?r + 1,
               lock_info = Some [], blob = [8]\<rparr> = example_row 6 (Some []) [8]"
    by (simp add: run_defs)
  from UpsertState_token_on_unlocked_key [OF cur tok ne below, of Unmarshal_ID_object "[8]"]
  have "UpsertState Unmarshal_ID_object [?r] example_id ''env'' ''writer'' [8]
          = (Inr (), [?r, example_row 6 (Some []) [8]])
      \<and> UnlockState [?r, example_row 6 (Some []) [8]] example_id ''env'' ''writer''
          = (Inl (CantUnlock [] ''writer''), [?r, example_row 6 (Some []) [8]])"
    unfolding new by auto
  with cur tok ne below show ?thesis by blast
qed


end
